theory Spec2Isabelle
  imports Complex_Main
begin

section \<open>Data model\<close>

text \<open>
  The arrays of \<^verbatim>\<open>neurora/stuff.py\<close> hold double-precision numbers. A number is modelled
  as either NaN or a finite value, and a finite value by the real number it denotes:
  arithmetic on finite values is exact, rounding and the infinities are outside the model.
  Console output (\<^verbatim>\<open>print\<close>) is not modelled.
\<close>

datatype val = NaN | Fin real

text \<open>\<^verbatim>\<open>math.isnan(x)\<close>.\<close>

fun isnan :: "val \<Rightarrow> bool" where
  "isnan NaN = True"
| "isnan (Fin x) = False"

text \<open>\<^verbatim>\<open>x * n\<close> for a number \<open>x\<close> and a Python integer \<open>n \<ge> 0\<close>: NaN propagates.\<close>

fun val_times :: "val \<Rightarrow> nat \<Rightarrow> val" where
  "val_times NaN n = NaN"
| "val_times (Fin x) n = Fin (x * real n)"

text \<open>
  A 3-D \<^verbatim>\<open>ndarray\<close> is its shape together with its cells, addressed by index triple.
  Only the cells inside the shape belong to the array.
\<close>

type_synonym idx3 = "nat \<times> nat \<times> nat"

record arr3 =
  shape :: idx3
  cell :: "idx3 \<Rightarrow> val"

definition inb :: "arr3 \<Rightarrow> idx3 \<Rightarrow> bool" where
  "inb a ix = (case shape a of (sx, sy, sz) \<Rightarrow> case ix of (i, j, k) \<Rightarrow> i < sx \<and> j < sy \<and> k < sz)"

text \<open>
  \<^verbatim>\<open>for i in range(a): for j in range(b): for k in range(c)\<close>: the index triples in the
  order the three nested loops visit them.
\<close>

definition idxs3 :: "nat \<Rightarrow> nat \<Rightarrow> nat \<Rightarrow> idx3 list" where
  "idxs3 a b c = [(i, j, k). i \<leftarrow> [0..<a], j \<leftarrow> [0..<b], k \<leftarrow> [0..<c]]"

text \<open>\<^verbatim>\<open>np.array(xsss)\<close> for a rectangular nested list, and \<^verbatim>\<open>a.tolist()\<close>.\<close>

definition np_array :: "val list list list \<Rightarrow> arr3" where
  "np_array xsss =
     \<lparr>shape = (length xsss, length (hd xsss), length (hd (hd xsss))),
      cell = (\<lambda>(i, j, k). if i < length xsss \<and> j < length (xsss ! i) \<and> k < length (xsss ! i ! j)
                            then xsss ! i ! j ! k else NaN)\<rparr>"

definition tolist :: "arr3 \<Rightarrow> val list list list" where
  "tolist a = (case shape a of (sx, sy, sz) \<Rightarrow>
     map (\<lambda>i. map (\<lambda>j. map (\<lambda>k. cell a (i, j, k)) [0..<sz]) [0..<sy]) [0..<sx])"

text \<open>\<^verbatim>\<open>np.full([px, py, pz], np.nan)\<close>.\<close>

definition full_nan :: "nat \<Rightarrow> nat \<Rightarrow> nat \<Rightarrow> arr3" where
  "full_nan px py pz = \<lparr>shape = (px, py, pz), cell = (\<lambda>ix. NaN)\<rparr>"

text \<open>\<^verbatim>\<open>a[i, j, k] = v\<close>.\<close>

definition set_cell :: "arr3 \<Rightarrow> idx3 \<Rightarrow> val \<Rightarrow> arr3" where
  "set_cell a ix v = a\<lparr>cell := (cell a)(ix := v)\<rparr>"

section \<open>FWE correction\<close>

text \<open>
  The test \<^verbatim>\<open>(math.isnan(p[i, j, k]) == False) and (p[i, j, k] != 0)\<close> of
  \<^verbatim>\<open>fwe_correct\<close> and \<^verbatim>\<open>fdr_correct\<close>.
\<close>

definition valid_p :: "val \<Rightarrow> bool" where
  "valid_p v = (isnan v = False \<and> v \<noteq> Fin 0)"

text \<open>The counting loop: \<^verbatim>\<open>n = 0\<close>, then \<^verbatim>\<open>n = n + 1\<close> at every voxel that passes the test.\<close>

definition count_step :: "arr3 \<Rightarrow> idx3 \<Rightarrow> nat \<Rightarrow> nat" where
  "count_step p ix n = (if valid_p (cell p ix) then n + 1 else n)"

definition count_valid :: "arr3 \<Rightarrow> nat" where
  "count_valid p = (case shape p of (px, py, pz) \<Rightarrow> fold (count_step p) (idxs3 px py pz) 0)"

text \<open>\<^verbatim>\<open>fwep = p*n\<close>: a new array, every cell multiplied by \<open>n\<close>.\<close>

definition fwe_correct :: "arr3 \<Rightarrow> arr3" where
  "fwe_correct p = (let n = count_valid p in \<lparr>shape = shape p, cell = (\<lambda>ix. val_times (cell p ix) n)\<rparr>)"

text \<open>The finite non-zero voxels of a map, as the specification counts them.\<close>

definition valid_voxels :: "arr3 \<Rightarrow> idx3 set" where
  "valid_voxels p = {ix. inb p ix \<and> (\<exists>x. cell p ix = Fin x \<and> x \<noteq> 0)}"

text \<open>The example map of the specification.\<close>

definition fwe_example :: arr3 where
  "fwe_example = np_array [[[Fin 0.01, Fin 0.02, Fin 0, NaN]]]"

section \<open>FDR correction\<close>

text \<open>
  \<^verbatim>\<open>pcluster\<close>, \<^verbatim>\<open>newpcluster\<close> and \<^verbatim>\<open>index\<close> are 1-D arrays, modelled as lists. Every
  index the source uses on them is in range: \<^verbatim>\<open>m\<close> counts the same voxels as \<^verbatim>\<open>n\<close>, and
  \<^verbatim>\<open>index\<close> is a permutation of \<^verbatim>\<open>range(n)\<close>.

  The gathering loop: \<^verbatim>\<open>pcluster[m] = p[i, j, k]; m = m + 1\<close> at every voxel that passes
  the test.
\<close>

definition gather_step :: "arr3 \<Rightarrow> idx3 \<Rightarrow> val list \<times> nat \<Rightarrow> val list \<times> nat" where
  "gather_step p ix st = (case st of (pcluster, m) \<Rightarrow>
     if valid_p (cell p ix) then (pcluster[m := cell p ix], m + 1) else (pcluster, m))"

text \<open>The order in which numpy sorts numbers: ascending, NaN last.\<close>

fun val_le :: "val \<Rightarrow> val \<Rightarrow> bool" where
  "val_le (Fin x) (Fin y) = (x \<le> y)"
| "val_le v NaN = True"
| "val_le NaN (Fin y) = False"

text \<open>
  \<^verbatim>\<open>np.argsort(pcluster)\<close>: the indices of \<^verbatim>\<open>pcluster\<close> in ascending order of their
  values, here by insertion, equal values in the order of their indices.
\<close>

fun insert_index :: "val list \<Rightarrow> nat \<Rightarrow> nat list \<Rightarrow> nat list" where
  "insert_index xs i [] = [i]"
| "insert_index xs i (j # js) =
     (if val_le (xs ! i) (xs ! j) then i # j # js else j # insert_index xs i js)"

definition argsort :: "val list \<Rightarrow> nat list" where
  "argsort xs = foldr (insert_index xs) [0..<length xs] []"

text \<open>\<^verbatim>\<open>float(x * n / (l + 0.5))\<close>.\<close>

fun rank_scale :: "val \<Rightarrow> nat \<Rightarrow> nat \<Rightarrow> val" where
  "rank_scale NaN n l = NaN"
| "rank_scale (Fin x) n l = Fin (x * real n / (real l + 0.5))"

text \<open>\<^verbatim>\<open>pcluster[index[l]] = float(pcluster[index[l]] * n / (l + 0.5))\<close>.\<close>

definition scale_step :: "nat \<Rightarrow> nat list \<Rightarrow> nat \<Rightarrow> val list \<Rightarrow> val list" where
  "scale_step n index l pcluster =
     pcluster[index ! l := rank_scale (pcluster ! (index ! l)) n l]"

text \<open>\<^verbatim>\<open>newpcluster[l] = pcluster[index[l]]\<close>.\<close>

definition reorder_step :: "val list \<Rightarrow> nat list \<Rightarrow> nat \<Rightarrow> val list \<Rightarrow> val list" where
  "reorder_step pcluster index l newpcluster = newpcluster[l := pcluster ! (index ! l)]"

text \<open>
  The scattering loop: \<^verbatim>\<open>fdrp[i, j, k] = newpcluster[m]; m = m + 1\<close> at every voxel that
  passes the test.
\<close>

definition scatter_step :: "arr3 \<Rightarrow> val list \<Rightarrow> idx3 \<Rightarrow> arr3 \<times> nat \<Rightarrow> arr3 \<times> nat" where
  "scatter_step p newpcluster ix st = (case st of (fdrp, m) \<Rightarrow>
     if valid_p (cell p ix) then (set_cell fdrp ix (newpcluster ! m), m + 1) else (fdrp, m))"

definition fdr_correct :: "arr3 \<Rightarrow> arr3" where
  "fdr_correct p = (case shape p of (px, py, pz) \<Rightarrow>
     let n = count_valid p;
         fdrp = full_nan px py pz;
         pcluster = replicate n (Fin 0);
         pcluster = fst (fold (gather_step p) (idxs3 px py pz) (pcluster, 0));
         index = argsort pcluster;
         pcluster = fold (scale_step n index) [0..<n] pcluster;
         newpcluster = replicate n NaN;
         newpcluster = fold (reorder_step pcluster index) [0..<n] newpcluster
     in fst (fold (scatter_step p newpcluster) (idxs3 px py pz) (fdrp, 0)))"

text \<open>A map with two p-values in descending order, and a map with a zero and a NaN voxel.\<close>

definition fdr_example :: arr3 where
  "fdr_example = np_array [[[Fin 0.75, Fin 0.125]]]"

definition fdr_zero_example :: arr3 where
  "fdr_zero_example = np_array [[[Fin 0, NaN, Fin 0.5]]]"

section \<open>ROI masking\<close>

datatype error = IndexError | UnboundLocalError

text \<open>
  \<^verbatim>\<open>a[i, j, k]\<close> for non-negative indices: \<^verbatim>\<open>IndexError\<close> outside the shape. The loops of
  \<^verbatim>\<open>datamask\<close> run over the shape of \<^verbatim>\<open>fmri_data\<close>, so it is the read of \<^verbatim>\<open>mask_data\<close>
  that can fail.
\<close>

definition get_cell :: "arr3 \<Rightarrow> idx3 \<Rightarrow> error + val" where
  "get_cell a ix = (if inb a ix then Inr (cell a ix) else Inl IndexError)"

text \<open>
  The loop body:
  \<^verbatim>\<open>if (mask_data[i, j, k] != 0) and (math.isnan(mask_data[i, j, k]) is False):
      newfmri_data[i, j, k] = fmri_data[i, j, k]\<close>
\<close>

definition datamask_step :: "arr3 \<Rightarrow> arr3 \<Rightarrow> idx3 \<Rightarrow> error + arr3 \<Rightarrow> error + arr3" where
  "datamask_step fmri_data mask_data ix acc =
     (case acc of
        Inl e \<Rightarrow> Inl e
      | Inr newfmri_data \<Rightarrow>
          (case get_cell mask_data ix of
             Inl e \<Rightarrow> Inl e
           | Inr mv \<Rightarrow>
               if mv \<noteq> Fin 0 \<and> isnan mv = False
               then Inr (set_cell newfmri_data ix (cell fmri_data ix))
               else Inr newfmri_data))"

definition datamask :: "arr3 \<Rightarrow> arr3 \<Rightarrow> error + arr3" where
  "datamask fmri_data mask_data = (case shape fmri_data of (nx, ny, nz) \<Rightarrow>
     fold (datamask_step fmri_data mask_data) (idxs3 nx ny nz) (Inr (full_nan nx ny nz)))"

definition mask_example_data :: arr3 where
  "mask_example_data = np_array [[[Fin 3, Fin 4, Fin 5]]]"

definition mask_example_mask :: arr3 where
  "mask_example_mask = np_array [[[Fin 1, Fin 0, NaN]]]"

section \<open>Cluster-size correction\<close>

text \<open>
  \<^verbatim>\<open>nsmall = 1; while nsmall*nsmall*nsmall < threshold: nsmall = nsmall + 1\<close>. The threshold
  is a Python integer and may be negative.
\<close>

function nsmall_loop :: "int \<Rightarrow> nat \<Rightarrow> nat" where
  "nsmall_loop threshold nsmall =
     (if int (nsmall * nsmall * nsmall) < threshold then nsmall_loop threshold (nsmall + 1)
      else nsmall)"
  by pat_completeness auto
termination
proof (relation "measure (\<lambda>(threshold, nsmall). nat (threshold - int (nsmall * nsmall * nsmall)))")
  show "wf (measure (\<lambda>(threshold, nsmall). nat (threshold - int (nsmall * nsmall * nsmall))))"
    by simp
next
  fix threshold :: int and nsmall :: nat
  assume a: "int (nsmall * nsmall * nsmall) < threshold"
  have "nsmall * nsmall * nsmall < (nsmall + 1) * (nsmall + 1) * (nsmall + 1)"
  proof -
    have "nsmall * nsmall \<le> (nsmall + 1) * (nsmall + 1)" by (intro mult_le_mono) simp_all
    then have "nsmall * nsmall * nsmall \<le> (nsmall + 1) * (nsmall + 1) * nsmall"
      by (intro mult_le_mono) simp_all
    also have "\<dots> < (nsmall + 1) * (nsmall + 1) * (nsmall + 1)" by simp
    finally show ?thesis .
  qed
  then have "int (nsmall * nsmall * nsmall) < int ((nsmall + 1) * (nsmall + 1) * (nsmall + 1))"
    by (simp only: of_nat_less_iff)
  with a have "nat (threshold - int ((nsmall + 1) * (nsmall + 1) * (nsmall + 1)))
      < nat (threshold - int (nsmall * nsmall * nsmall))"
    by linarith
  then show "((threshold, nsmall + 1), (threshold, nsmall))
      \<in> measure (\<lambda>(threshold, nsmall). nat (threshold - int (nsmall * nsmall * nsmall)))"
    by (simp only: in_measure prod.case)
qed

declare nsmall_loop.simps [simp del]

text \<open>\<^verbatim>\<open>for l in range(a): for m in range(b)\<close>.\<close>

definition idxs2 :: "nat \<Rightarrow> nat \<Rightarrow> (nat \<times> nat) list" where
  "idxs2 a b = [(l, m). l \<leftarrow> [0..<a], m \<leftarrow> [0..<b]]"

text \<open>
  \<^verbatim>\<open>list(np.reshape(img[i:i+n, j:j+n, k:k+n], [n*n*n]))\<close>. Every slice the routine takes
  lies inside the array, so numpy never clips it.
\<close>

definition cube_list :: "arr3 \<Rightarrow> idx3 \<Rightarrow> nat \<Rightarrow> val list" where
  "cube_list img c n = (case c of (i, j, k) \<Rightarrow>
     map (\<lambda>(l, m, p). cell img (i + l, j + m, k + p)) (idxs3 n n n))"

text \<open>The voxels of the slice \<^verbatim>\<open>[i:i+n, j:j+n, k:k+n]\<close>.\<close>

definition in_cube :: "idx3 \<Rightarrow> nat \<Rightarrow> idx3 \<Rightarrow> bool" where
  "in_cube c n ix = (case c of (i, j, k) \<Rightarrow> case ix of (x, y, z) \<Rightarrow>
     i \<le> x \<and> x < i + n \<and> j \<le> y \<and> y < j + n \<and> k \<le> z \<and> z < k + n)"

text \<open>\<^verbatim>\<open>img[i:i+n, j:j+n, k:k+n] = np.zeros([n, n, n])\<close>, in place.\<close>

definition zero_cube :: "arr3 \<Rightarrow> idx3 \<Rightarrow> nat \<Rightarrow> arr3" where
  "zero_cube img c n = img\<lparr>cell := (\<lambda>ix. if in_cube c n ix then Fin 0 else cell img ix)\<rparr>"

text \<open>
  The first counting loop, over \<^verbatim>\<open>l, m in range(nlarge)\<close>: the two faces
  \<^verbatim>\<open>img[i + l, j + m, k]\<close> and \<^verbatim>\<open>img[i + l, j + m, k + nlarge - 1]\<close>.
\<close>

definition face_step :: "arr3 \<Rightarrow> idx3 \<Rightarrow> nat \<Rightarrow> nat \<times> nat \<Rightarrow> nat \<Rightarrow> nat" where
  "face_step img w nlarge lm index1 = (case w of (i, j, k) \<Rightarrow> case lm of (l, m) \<Rightarrow>
     let index1 = (if cell img (i + l, j + m, k) = Fin 0 then index1 + 1 else index1);
         index1 = (if cell img (i + l, j + m, k + nlarge - 1) = Fin 0 then index1 + 1 else index1)
     in index1)"

text \<open>
  The second counting loop, over \<^verbatim>\<open>l in range(nlarge-1)\<close> and \<^verbatim>\<open>m in range(nlarge-2)\<close>:
  \<^verbatim>\<open>img[i + l, j, k + m]\<close>, \<^verbatim>\<open>img[i, j + l + 1, k + m]\<close>,
  \<^verbatim>\<open>img[i + nlarge - 1, j + l, k + m]\<close> and \<^verbatim>\<open>img[i + l + 1, j + nlarge - 1, k + m]\<close>.
\<close>

definition side_step :: "arr3 \<Rightarrow> idx3 \<Rightarrow> nat \<Rightarrow> nat \<times> nat \<Rightarrow> nat \<Rightarrow> nat" where
  "side_step img w nlarge lm index1 = (case w of (i, j, k) \<Rightarrow> case lm of (l, m) \<Rightarrow>
     let index1 = (if cell img (i + l, j, k + m) = Fin 0 then index1 + 1 else index1);
         index1 = (if cell img (i, j + l + 1, k + m) = Fin 0 then index1 + 1 else index1);
         index1 = (if cell img (i + nlarge - 1, j + l, k + m) = Fin 0 then index1 + 1 else index1);
         index1 = (if cell img (i + l + 1, j + nlarge - 1, k + m) = Fin 0 then index1 + 1 else index1)
     in index1)"

definition shell_zeros :: "arr3 \<Rightarrow> idx3 \<Rightarrow> nat \<Rightarrow> nat" where
  "shell_zeros img w nlarge =
     fold (side_step img w nlarge) (idxs2 (nlarge - 1) (nlarge - 2))
       (fold (face_step img w nlarge) (idxs2 nlarge nlarge) 0)"

text \<open>
  The body of the window loop at window origin \<open>(i, j, k)\<close>. \<^verbatim>\<open>listlarge.count(0)\<close> counts
  the elements equal to zero; NaN is not equal to zero. The statement
  \<^verbatim>\<open>img[i+1:i+1+nsmall, j]\<close> has no effect. The slice assignment is repeated once for
  every \<^verbatim>\<open>l, m, p in range(nsmall)\<close>.
\<close>

definition window_step :: "nat \<Rightarrow> int \<Rightarrow> idx3 \<Rightarrow> arr3 \<Rightarrow> arr3" where
  "window_step nsmall threshold w img = (case w of (i, j, k) \<Rightarrow>
     let nlarge = nsmall + 2;
         listlarge = cube_list img (i, j, k) nlarge
     in if count_list listlarge (Fin 0) < nlarge * nlarge * nlarge then
          let index1 = shell_zeros img (i, j, k) nlarge;
              nex = nlarge * nlarge * nlarge - nsmall * nsmall * nsmall
          in if index1 = nex then
               let list_internal = cube_list img (i + 1, j + 1, k + 1) nsmall;
                   index2 = nsmall * nsmall * nsmall - count_list list_internal (Fin 0)
               in if int index2 < threshold then
                    fold (\<lambda>lmp img. zero_cube img (i + 1, j + 1, k + 1) nsmall)
                      (idxs3 nsmall nsmall nsmall) img
                  else img
             else img
        else img)"

text \<open>The three nested conditions under which the body of the window loop writes.\<close>

definition window_fires :: "nat \<Rightarrow> int \<Rightarrow> idx3 \<Rightarrow> arr3 \<Rightarrow> bool" where
  "window_fires nsmall threshold w img = (case w of (i, j, k) \<Rightarrow>
     count_list (cube_list img (i, j, k) (nsmall + 2)) (Fin 0)
       < (nsmall + 2) * (nsmall + 2) * (nsmall + 2) \<and>
     shell_zeros img (i, j, k) (nsmall + 2)
       = (nsmall + 2) * (nsmall + 2) * (nsmall + 2) - nsmall * nsmall * nsmall \<and>
     int (nsmall * nsmall * nsmall - count_list (cube_list img (i + 1, j + 1, k + 1) nsmall) (Fin 0))
       < threshold)"

text \<open>
  \<^verbatim>\<open>range(sx-nlarge+1)\<close> is empty when \<^verbatim>\<open>sx-nlarge+1\<close> is not positive, as
  \<open>[0..<sx + 1 - nlarge]\<close> is on the natural numbers. The array is updated in place:
  each window sees what the windows before it wrote.
\<close>

definition correct_by_threshold :: "arr3 \<Rightarrow> int \<Rightarrow> arr3" where
  "correct_by_threshold img threshold = (case shape img of (sx, sy, sz) \<Rightarrow>
     let nsmall = nsmall_loop threshold 1;
         nlarge = nsmall + 2
     in fold (window_step nsmall threshold)
          (idxs3 (sx + 1 - nlarge) (sy + 1 - nlarge) (sz + 1 - nlarge)) img)"

text \<open>
  Maps for the examples: a single non-zero voxel in a 1 x 1 x 1 volume, and 4 x 4 x 4
  volumes that are zero except for the listed voxels.
\<close>

definition single_voxel_map :: arr3 where
  "single_voxel_map = np_array [[[Fin 1]]]"

definition sparse_map :: "idx3 list \<Rightarrow> arr3" where
  "sparse_map ixs = \<lparr>shape = (4, 4, 4), cell = (\<lambda>ix. if ix \<in> set ixs then Fin 1 else Fin 0)\<rparr>"

section \<open>Cluster-size correction on the caller's array\<close>

text \<open>
  In the source \<^verbatim>\<open>img\<close> names an array object of the caller. The heap maps object names
  to arrays: every read of \<^verbatim>\<open>img\<close> reads the heap at that name, the slice assignment
  \<^verbatim>\<open>img[...] = np.zeros(...)\<close> replaces the contents of that object, and
  \<^verbatim>\<open>return img\<close> returns the name. The lists \<^verbatim>\<open>listlarge\<close>, \<^verbatim>\<open>unit\<close> and
  \<^verbatim>\<open>list_internal\<close> are temporaries that do not outlive an iteration.
\<close>

type_synonym ref = nat

type_synonym heap = "ref \<Rightarrow> arr3"

definition window_step_ref :: "nat \<Rightarrow> int \<Rightarrow> ref \<Rightarrow> idx3 \<Rightarrow> heap \<Rightarrow> heap" where
  "window_step_ref nsmall threshold img w h = (case w of (i, j, k) \<Rightarrow>
     let nlarge = nsmall + 2;
         listlarge = cube_list (h img) (i, j, k) nlarge
     in if count_list listlarge (Fin 0) < nlarge * nlarge * nlarge then
          let index1 = shell_zeros (h img) (i, j, k) nlarge;
              nex = nlarge * nlarge * nlarge - nsmall * nsmall * nsmall
          in if index1 = nex then
               let list_internal = cube_list (h img) (i + 1, j + 1, k + 1) nsmall;
                   index2 = nsmall * nsmall * nsmall - count_list list_internal (Fin 0)
               in if int index2 < threshold then
                    fold (\<lambda>lmp h. h(img := zero_cube (h img) (i + 1, j + 1, k + 1) nsmall))
                      (idxs3 nsmall nsmall nsmall) h
                  else h
             else h
        else h)"

definition correct_by_threshold_ref :: "ref \<Rightarrow> int \<Rightarrow> heap \<Rightarrow> ref \<times> heap" where
  "correct_by_threshold_ref img threshold h = (case shape (h img) of (sx, sy, sz) \<Rightarrow>
     let nsmall = nsmall_loop threshold 1;
         nlarge = nsmall + 2;
         h = fold (window_step_ref nsmall threshold img)
               (idxs3 (sx + 1 - nlarge) (sy + 1 - nlarge) (sz + 1 - nlarge)) h
     in (img, h))"

text \<open>A heap with the map under the name 7 and empty arrays everywhere else.\<close>

definition example_heap :: heap where
  "example_heap = (\<lambda>r. np_array [])(7 := sparse_map [(1, 1, 1)])"

section \<open>RDM plots\<close>

text \<open>
  \<^verbatim>\<open>neurora/rsa_plot.py\<close>. An RDM is a 2-D array of finite numbers: its shape and its
  entries, addressed by index pair. The plotting backend is not modelled beyond one fact:
  whether a figure was shown, and of which matrix. The cosmetic parameters (colour map, font
  sizes, tick labels) are left out; \<^verbatim>\<open>plot_rdm_withvalue\<close> keeps whether \<^verbatim>\<open>conditions\<close>
  was given, since its control flow depends on it.
\<close>

record arr2 =
  shape2 :: "nat \<times> nat"
  entry :: "nat \<times> nat \<Rightarrow> real"

text \<open>\<^verbatim>\<open>np.array(xss)\<close> for a rectangular nested list.\<close>

definition np_matrix :: "real list list \<Rightarrow> arr2" where
  "np_matrix xss =
     \<lparr>shape2 = (length xss, length (hd xss)),
      entry = (\<lambda>(i, j). if i < length xss \<and> j < length (xss ! i) then xss ! i ! j else 0)\<rparr>"

text \<open>Python's \<^verbatim>\<open>None\<close>, the value every path of the two functions returns.\<close>

datatype pyval = PyNone

text \<open>
  What a call leaves behind: the value returned, the caller's matrix after the call, and
  the matrix of the figure shown by \<^verbatim>\<open>plt.show()\<close>, if one was shown.
\<close>

record plot_outcome =
  returned :: pyval
  rdm_after :: arr2
  shown :: "arr2 option"

text \<open>\<^verbatim>\<open>vrdm = np.reshape(rdm, [cons * cons])\<close>, row by row.\<close>

definition flatten_rdm :: "arr2 \<Rightarrow> nat \<Rightarrow> real list" where
  "flatten_rdm rdm cons = map (entry rdm) (idxs2 cons cons)"

text \<open>
  \<^verbatim>\<open>if i != j: rdm[i, j] = float((rdm[i, j] - minvalue) / (maxvalue - minvalue))\<close>, in
  place.
\<close>

definition rescale_step :: "real \<Rightarrow> real \<Rightarrow> nat \<times> nat \<Rightarrow> arr2 \<Rightarrow> arr2" where
  "rescale_step minvalue maxvalue ij rdm = (case ij of (i, j) \<Rightarrow>
     if i \<noteq> j
     then rdm\<lparr>entry := (entry rdm)((i, j) := (entry rdm (i, j) - minvalue) / (maxvalue - minvalue))\<rparr>
     else rdm)"

text \<open>
  The rescaling block. \<^verbatim>\<open>svrdm = set(vrdm); lvrdm = list(svrdm); lvrdm.sort()\<close> is the
  ascending list of the distinct values. \<^verbatim>\<open>lvrdm[-1]\<close> and \<^verbatim>\<open>lvrdm[1]\<close> raise
  \<^verbatim>\<open>IndexError\<close> when there are fewer than two distinct values.
\<close>

definition rescale_rdm :: "arr2 \<Rightarrow> nat \<Rightarrow> error + arr2" where
  "rescale_rdm rdm cons =
     (let vrdm = flatten_rdm rdm cons;
          lvrdm = sort (remdups vrdm)
      in if length lvrdm < 2 then Inl IndexError
         else
           let maxvalue = last lvrdm;
               minvalue = lvrdm ! 1
           in if maxvalue \<noteq> minvalue
              then Inr (fold (rescale_step minvalue maxvalue) (idxs2 cons cons) rdm)
              else Inr rdm)"

definition plot_rdm :: "arr2 \<Rightarrow> bool \<Rightarrow> error + plot_outcome" where
  "plot_rdm rdm rescale = (case shape2 rdm of (a, b) \<Rightarrow>
     let cons = a
     in if cons = 2 then Inr \<lparr>returned = PyNone, rdm_after = rdm, shown = None\<rparr>
        else if a \<noteq> b then Inr \<lparr>returned = PyNone, rdm_after = rdm, shown = None\<rparr>
        else
          (case (if rescale = True then rescale_rdm rdm cons else Inr rdm) of
             Inl e \<Rightarrow> Inl e
           | Inr rdm \<Rightarrow> Inr \<lparr>returned = PyNone, rdm_after = rdm, shown = Some rdm\<rparr>))"

text \<open>
  \<^verbatim>\<open>plot_rdm_withvalue\<close> assigns \<^verbatim>\<open>step\<close> only under \<^verbatim>\<open>conditions != None\<close>; the loop
  that writes the values reads it in its first iteration.
\<close>

definition plot_rdm_withvalue :: "arr2 \<Rightarrow> bool \<Rightarrow> error + plot_outcome" where
  "plot_rdm_withvalue rdm conditions_given = (case shape2 rdm of (a, b) \<Rightarrow>
     let cons = a
     in if cons = 2 then Inr \<lparr>returned = PyNone, rdm_after = rdm, shown = None\<rparr>
        else if a \<noteq> b then Inr \<lparr>returned = PyNone, rdm_after = rdm, shown = None\<rparr>
        else if \<not> conditions_given \<and> 0 < cons then Inl UnboundLocalError
        else Inr \<lparr>returned = PyNone, rdm_after = rdm, shown = Some rdm\<rparr>)"

text \<open>The distinct values of a square RDM, over all entries including the diagonal.\<close>

definition rdm_values :: "arr2 \<Rightarrow> real set" where
  "rdm_values rdm = set (flatten_rdm rdm (fst (shape2 rdm)))"

text \<open>Example matrices: 2 x 2, 3 x 2, and a symmetric 3 x 3 RDM.\<close>

definition rdm_2x2 :: arr2 where
  "rdm_2x2 = np_matrix [[0, 5], [5, 0]]"

definition rdm_3x2 :: arr2 where
  "rdm_3x2 = np_matrix [[0, 1], [2, 3], [4, 5]]"

definition rdm_3x3 :: arr2 where
  "rdm_3x3 = np_matrix [[0, 1, 3], [1, 0, 2], [3, 2, 0]]"

section \<open>Index lists\<close>

lemma set_idxs3: "set (idxs3 a b c) = {(i, j, k). i < a \<and> j < b \<and> k < c}"
  by (fastforce simp: idxs3_def image_iff)

lemma distinct_concat_map:
  "distinct xs \<Longrightarrow> (\<And>x. x \<in> set xs \<Longrightarrow> distinct (f x)) \<Longrightarrow>
   (\<And>x y. x \<in> set xs \<Longrightarrow> y \<in> set xs \<Longrightarrow> x \<noteq> y \<Longrightarrow> set (f x) \<inter> set (f y) = {}) \<Longrightarrow>
   distinct (concat (map f xs))"
  by (induction xs) auto

lemma distinct_idxs3: "distinct (idxs3 a b c)"
  unfolding idxs3_def
  by (intro distinct_concat_map) (auto simp: distinct_map inj_on_def)

lemma valid_p_iff: "valid_p v \<longleftrightarrow> (\<exists>x. v = Fin x \<and> x \<noteq> 0)"
  by (cases v) (auto simp: valid_p_def)

lemma fold_count_step:
  "fold (count_step p) xs n = n + length (filter (\<lambda>ix. valid_p (cell p ix)) xs)"
  by (induction xs arbitrary: n) (auto simp: count_step_def)

lemma count_valid_card: "count_valid p = card (valid_voxels p)"
proof -
  obtain px py pz where s: "shape p = (px, py, pz)"
    by (cases "shape p") auto
  have "valid_voxels p = set (filter (\<lambda>ix. valid_p (cell p ix)) (idxs3 px py pz))"
    by (auto simp: valid_voxels_def inb_def s set_idxs3 valid_p_iff)
  moreover have "distinct (filter (\<lambda>ix. valid_p (cell p ix)) (idxs3 px py pz))"
    by (simp add: distinct_idxs3)
  ultimately have "card (valid_voxels p) = length (filter (\<lambda>ix. valid_p (cell p ix)) (idxs3 px py pz))"
    by (metis distinct_card)
  then show ?thesis
    by (simp add: count_valid_def s fold_count_step)
qed

section \<open>FWE correction: results\<close>

lemma shape_fwe_example: "shape fwe_example = (1, 1, 4)"
  by (simp add: fwe_example_def np_array_def)

lemma count_valid_fwe_example: "count_valid fwe_example = 2"
  by (simp add: count_valid_def shape_fwe_example idxs3_def count_step_def valid_p_def
      fwe_example_def np_array_def upt_rec numeral_nat)

text \<open>
  C3. For every 3-D p-value map with \<open>n\<close> finite non-zero voxels, \<^verbatim>\<open>fwe_correct\<close> returns
  a map of the same shape; the counting loop yields \<open>n\<close>; a voxel holding a finite non-zero
  \<open>x\<close> holds \<open>x * n\<close> afterwards, a voxel holding zero still holds zero and a NaN voxel is
  still NaN. On the map with the values 0.01, 0.02, 0, NaN the count is 2 and the result
  holds 0.02, 0.04, 0, NaN.
\<close>

theorem fwe_correct_scales_by_count:
  "shape (fwe_correct p) = shape p \<and>
   count_valid p = card (valid_voxels p) \<and>
   (\<forall>ix. inb p ix \<longrightarrow>
      (\<forall>x. cell p ix = Fin x \<and> x \<noteq> 0 \<longrightarrow>
           cell (fwe_correct p) ix = Fin (x * real (card (valid_voxels p)))) \<and>
      (cell p ix = Fin 0 \<longrightarrow> cell (fwe_correct p) ix = Fin 0) \<and>
      (cell p ix = NaN \<longrightarrow> cell (fwe_correct p) ix = NaN)) \<and>
   card (valid_voxels fwe_example) = 2 \<and>
   tolist (fwe_correct fwe_example) = [[[Fin 0.02, Fin 0.04, Fin 0, NaN]]]"
proof -
  have "tolist (fwe_correct fwe_example) = [[[Fin 0.02, Fin 0.04, Fin 0, NaN]]]"
    by (simp add: tolist_def fwe_correct_def count_valid_fwe_example shape_fwe_example
        upt_rec numeral_nat)
      (simp add: fwe_example_def np_array_def)
  moreover have "card (valid_voxels fwe_example) = 2"
    using count_valid_card [of fwe_example] by (simp add: count_valid_fwe_example)
  ultimately show ?thesis
    by (simp add: fwe_correct_def Let_def count_valid_card)
qed

theorem fwe_correct_scales_by_count_witness:
  "inb fwe_example (0, 0, 1) \<and> cell fwe_example (0, 0, 1) = Fin 0.02 \<and> (0.02::real) \<noteq> 0 \<and>
   inb fwe_example (0, 0, 2) \<and> cell fwe_example (0, 0, 2) = Fin 0 \<and>
   inb fwe_example (0, 0, 3) \<and> cell fwe_example (0, 0, 3) = NaN \<and>
   card (valid_voxels fwe_example) = 2 \<and>
   cell (fwe_correct fwe_example) (0, 0, 1) = Fin 0.04 \<and>
   cell (fwe_correct fwe_example) (0, 0, 2) = Fin 0 \<and>
   cell (fwe_correct fwe_example) (0, 0, 3) = NaN"
proof -
  have c: "cell fwe_example (0, 0, 1) = Fin 0.02" "cell fwe_example (0, 0, 2) = Fin 0"
    "cell fwe_example (0, 0, 3) = NaN"
    by (simp_all add: fwe_example_def np_array_def)
  have b: "inb fwe_example (0, 0, 1)" "inb fwe_example (0, 0, 2)" "inb fwe_example (0, 0, 3)"
    by (simp_all add: inb_def shape_fwe_example)
  note t = fwe_correct_scales_by_count [of fwe_example]
  have n: "card (valid_voxels fwe_example) = 2"
    using t by blast
  have "\<forall>x. cell fwe_example (0, 0, 1) = Fin x \<and> x \<noteq> 0 \<longrightarrow>
          cell (fwe_correct fwe_example) (0, 0, 1) = Fin (x * real (card (valid_voxels fwe_example)))"
    using t b(1) by blast
  then have "cell (fwe_correct fwe_example) (0, 0, 1) = Fin (0.02 * real (card (valid_voxels fwe_example)))"
    using c(1) by (elim allE [of _ "0.02"]) simp
  then have r1: "cell (fwe_correct fwe_example) (0, 0, 1) = Fin 0.04"
    by (simp add: n)
  have r2: "cell (fwe_correct fwe_example) (0, 0, 2) = Fin 0"
    using t b(2) c(2) by blast
  have r3: "cell (fwe_correct fwe_example) (0, 0, 3) = NaN"
    using t b(3) c(3) by blast
  show ?thesis
    using b c n r1 r2 r3 by simp
qed

section \<open>ROI masking: results\<close>

lemma shape_set_cell [simp]: "shape (set_cell a ix v) = shape a"
  by (simp add: set_cell_def)

lemma cell_set_cell [simp]: "cell (set_cell a ix v) iy = (if iy = ix then v else cell a iy)"
  by (simp add: set_cell_def)

lemma inb_set_cell [simp]: "inb (set_cell a ix v) iy = inb a iy"
  by (simp add: inb_def)

lemma inb_idxs3: "shape a = (sx, sy, sz) \<Longrightarrow> inb a ix \<longleftrightarrow> ix \<in> set (idxs3 sx sy sz)"
  by (auto simp: inb_def set_idxs3)

lemma fold_datamask_step:
  assumes "\<forall>ix \<in> set xs. inb m ix"
  shows "\<exists>out. fold (datamask_step f m) xs (Inr a) = Inr out \<and> shape out = shape a \<and>
           (\<forall>ix. cell out ix =
              (if ix \<in> set xs \<and> cell m ix \<noteq> Fin 0 \<and> \<not> isnan (cell m ix) then cell f ix
               else cell a ix))"
  using assms
proof (induction xs arbitrary: a)
  case Nil
  then show ?case by simp
next
  case (Cons x xs)
  let ?a' = "if cell m x \<noteq> Fin 0 \<and> \<not> isnan (cell m x) then set_cell a x (cell f x) else a"
  have step: "datamask_step f m x (Inr a) = Inr ?a'"
    using Cons.prems by (simp add: datamask_step_def get_cell_def)
  from Cons.prems have "\<forall>ix \<in> set xs. inb m ix" by simp
  from Cons.IH [OF this, of ?a'] obtain out where
    out: "fold (datamask_step f m) xs (Inr ?a') = Inr out" "shape out = shape ?a'"
      "\<forall>ix. cell out ix =
         (if ix \<in> set xs \<and> cell m ix \<noteq> Fin 0 \<and> \<not> isnan (cell m ix) then cell f ix
          else cell ?a' ix)"
    by blast
  have "fold (datamask_step f m) (x # xs) (Inr a) = Inr out"
    using out(1) step by simp
  moreover have "shape out = shape a"
    using out(2) by simp
  moreover have "\<forall>ix. cell out ix =
      (if ix \<in> set (x # xs) \<and> cell m ix \<noteq> Fin 0 \<and> \<not> isnan (cell m ix) then cell f ix
       else cell a ix)"
    using out(3) by auto
  ultimately show ?case by blast
qed

text \<open>
  C6. For equally shaped 3-D arrays \<^verbatim>\<open>fmri_data\<close> and \<^verbatim>\<open>mask_data\<close>, \<^verbatim>\<open>datamask\<close> returns
  (without raising) an array of the same shape that holds, at each voxel index, the value
  of \<^verbatim>\<open>fmri_data\<close> where \<^verbatim>\<open>mask_data\<close> is non-zero and not NaN, and NaN at every other index.
\<close>

theorem datamask_selects:
  assumes "shape mask_data = shape fmri_data"
  shows "\<exists>out. datamask fmri_data mask_data = Inr out \<and> shape out = shape fmri_data \<and>
           (\<forall>ix. inb fmri_data ix \<longrightarrow>
              cell out ix =
                (if cell mask_data ix \<noteq> Fin 0 \<and> \<not> isnan (cell mask_data ix)
                 then cell fmri_data ix else NaN))"
proof -
  obtain nx ny nz where s: "shape fmri_data = (nx, ny, nz)"
    by (cases "shape fmri_data") auto
  have "\<forall>ix \<in> set (idxs3 nx ny nz). inb mask_data ix"
    using assms s by (simp add: inb_idxs3 [of mask_data nx ny nz])
  from fold_datamask_step [OF this, of fmri_data "full_nan nx ny nz"]
  obtain out where
    out: "fold (datamask_step fmri_data mask_data) (idxs3 nx ny nz) (Inr (full_nan nx ny nz)) = Inr out"
      "shape out = shape (full_nan nx ny nz)"
      "\<forall>ix. cell out ix =
         (if ix \<in> set (idxs3 nx ny nz) \<and> cell mask_data ix \<noteq> Fin 0 \<and> \<not> isnan (cell mask_data ix)
          then cell fmri_data ix else cell (full_nan nx ny nz) ix)"
    by blast
  have "datamask fmri_data mask_data = Inr out"
    using out(1) by (simp add: datamask_def s)
  moreover have "shape out = shape fmri_data"
    using out(2) by (simp add: full_nan_def s)
  moreover have "\<forall>ix. inb fmri_data ix \<longrightarrow>
      cell out ix =
        (if cell mask_data ix \<noteq> Fin 0 \<and> \<not> isnan (cell mask_data ix) then cell fmri_data ix else NaN)"
    using out(3) by (simp add: inb_idxs3 [OF s] full_nan_def)
  ultimately show ?thesis by blast
qed

theorem datamask_selects_witness:
  "shape mask_example_mask = shape mask_example_data \<and>
   (\<exists>out. datamask mask_example_data mask_example_mask = Inr out \<and>
          tolist out = [[[Fin 3, NaN, NaN]]])"
proof -
  have s: "shape mask_example_mask = shape mask_example_data"
    by (simp add: mask_example_mask_def mask_example_data_def np_array_def)
  have sd: "shape mask_example_data = (1, 1, 3)"
    by (simp add: mask_example_data_def np_array_def)
  from datamask_selects [OF s] obtain out where
    out: "datamask mask_example_data mask_example_mask = Inr out"
      "shape out = shape mask_example_data"
      "\<forall>ix. inb mask_example_data ix \<longrightarrow>
         cell out ix =
           (if cell mask_example_mask ix \<noteq> Fin 0 \<and> \<not> isnan (cell mask_example_mask ix)
            then cell mask_example_data ix else NaN)"
    by blast
  have b: "inb mask_example_data (0, 0, 0)" "inb mask_example_data (0, 0, 1)"
    "inb mask_example_data (0, 0, 2)"
    by (simp_all add: inb_def sd)
  have "cell out (0, 0, 0) = Fin 3"
    using out(3) b(1) by (simp add: mask_example_mask_def mask_example_data_def np_array_def)
  moreover have "cell out (0, 0, 1) = NaN"
    using out(3) b(2) by (simp add: mask_example_mask_def mask_example_data_def np_array_def)
  moreover have "cell out (0, 0, 2) = NaN"
    using out(3) b(3) by (simp add: mask_example_mask_def mask_example_data_def np_array_def)
  ultimately have "tolist out = [[[Fin 3, NaN, NaN]]]"
    by (simp add: tolist_def out(2) sd upt_rec numeral_nat)
  then show ?thesis
    using s out(1) by blast
qed

section \<open>FDR correction: results\<close>

lemma fold_scatter_step_shape:
  "shape (fst (fold (scatter_step p newpcluster) xs (fdrp, m))) = shape fdrp"
  by (induction xs arbitrary: fdrp m) (simp_all add: scatter_step_def)

lemma fold_scatter_step_frame:
  "\<not> valid_p (cell p ix) \<Longrightarrow>
   cell (fst (fold (scatter_step p newpcluster) xs (fdrp, m))) ix = cell fdrp ix"
  by (induction xs arbitrary: fdrp m) (auto simp: scatter_step_def)

text \<open>
  C1. On the map \<open>[[[0.75, 0.125]]]\<close> there are \<open>n = 2\<close> finite non-zero voxels; 0.75 has
  rank 2 and 0.125 has rank 1, so the voxels should hold \<open>0.75 * 2 / 1.5 = 1\<close> and
  \<open>0.125 * 2 / 0.5 = 0.5\<close>. \<^verbatim>\<open>fdr_correct\<close> returns \<open>[[[0.5, 1]]]\<close>: the corrected values
  are laid out in rank order, not at the voxels their p-values came from.
\<close>

theorem fdr_correct_rank_order_layout:
  "tolist fdr_example = [[[Fin 0.75, Fin 0.125]]] \<and>
   count_valid fdr_example = 2 \<and>
   rank_scale (Fin 0.75) 2 1 = Fin 1 \<and>
   rank_scale (Fin 0.125) 2 0 = Fin 0.5 \<and>
   tolist (fdr_correct fdr_example) = [[[Fin 0.5, Fin 1]]]"
  by code_simp

text \<open>
  C4, as stated: a voxel holding exact zero does not keep its value. On the map
  \<open>[[[0, NaN, 0.5]]]\<close> the first voxel holds zero and \<^verbatim>\<open>fdr_correct\<close> returns NaN there.
\<close>

theorem fdr_correct_zero_counterexample:
  "inb fdr_zero_example (0, 0, 0) \<and> cell fdr_zero_example (0, 0, 0) = Fin 0 \<and>
   cell (fdr_correct fdr_zero_example) (0, 0, 0) \<noteq> cell fdr_zero_example (0, 0, 0)"
  by code_simp

text \<open>
  C4, amended. For every 3-D p-value map, \<^verbatim>\<open>fdr_correct\<close> returns a map of the same shape
  that holds NaN at every voxel where the input is NaN and at every voxel where the input
  is exactly zero.
\<close>

theorem fdr_correct_nan_elsewhere:
  "shape (fdr_correct p) = shape p \<and>
   (\<forall>ix. inb p ix \<and> (cell p ix = NaN \<or> cell p ix = Fin 0) \<longrightarrow>
      cell (fdr_correct p) ix = NaN)"
proof -
  obtain px py pz where s: "shape p = (px, py, pz)"
    by (cases "shape p") auto
  have "shape (fdr_correct p) = shape p"
    by (simp add: fdr_correct_def s Let_def fold_scatter_step_shape full_nan_def)
  moreover have "cell (fdr_correct p) ix = NaN" if "cell p ix = NaN \<or> cell p ix = Fin 0" for ix
  proof -
    from that have "\<not> valid_p (cell p ix)"
      by (auto simp: valid_p_def)
    then show ?thesis
      by (simp add: fdr_correct_def s Let_def fold_scatter_step_frame full_nan_def)
  qed
  ultimately show ?thesis by blast
qed

theorem fdr_correct_nan_elsewhere_witness:
  "inb fdr_zero_example (0, 0, 0) \<and> cell fdr_zero_example (0, 0, 0) = Fin 0 \<and>
   inb fdr_zero_example (0, 0, 1) \<and> cell fdr_zero_example (0, 0, 1) = NaN \<and>
   cell (fdr_correct fdr_zero_example) (0, 0, 0) = NaN \<and>
   cell (fdr_correct fdr_zero_example) (0, 0, 1) = NaN"
proof -
  have b: "inb fdr_zero_example (0, 0, 0)" "inb fdr_zero_example (0, 0, 1)"
    by (simp_all add: inb_def fdr_zero_example_def np_array_def)
  have c: "cell fdr_zero_example (0, 0, 0) = Fin 0" "cell fdr_zero_example (0, 0, 1) = NaN"
    by (simp_all add: fdr_zero_example_def np_array_def)
  note t = fdr_correct_nan_elsewhere [of fdr_zero_example]
  have "cell (fdr_correct fdr_zero_example) (0, 0, 0) = NaN"
    using t b(1) c(1) by blast
  moreover have "cell (fdr_correct fdr_zero_example) (0, 0, 1) = NaN"
    using t b(2) c(2) by blast
  ultimately show ?thesis
    using b c by blast
qed

section \<open>Cluster-size correction: what a window writes\<close>

lemma shape_zero_cube [simp]: "shape (zero_cube img c n) = shape img"
  by (simp add: zero_cube_def)

lemma cell_zero_cube [simp]:
  "cell (zero_cube img c n) ix = (if in_cube c n ix then Fin 0 else cell img ix)"
  by (simp add: zero_cube_def)

lemma fold_zero_cube_shape: "shape (fold (\<lambda>lmp a. zero_cube a c n) xs img) = shape img"
  by (induction xs arbitrary: img) simp_all

lemma fold_zero_cube_cell:
  "cell (fold (\<lambda>lmp a. zero_cube a c n) xs img) ix =
     (if xs \<noteq> [] \<and> in_cube c n ix then Fin 0 else cell img ix)"
  by (induction xs arbitrary: img) simp_all

lemma idxs3_empty_iff: "idxs3 a b c = [] \<longleftrightarrow> a = 0 \<or> b = 0 \<or> c = 0"
proof -
  have "idxs3 a b c = [] \<longleftrightarrow> set (idxs3 a b c) = {}"
    by simp
  also have "\<dots> \<longleftrightarrow> a = 0 \<or> b = 0 \<or> c = 0"
    unfolding set_idxs3 by auto
  finally show ?thesis .
qed

lemma in_cube_0 [simp]: "\<not> in_cube c 0 ix"
  by (cases c; cases ix) (simp add: in_cube_def)

lemma window_step_shape [simp]: "shape (window_step nsmall threshold w img) = shape img"
  by (cases w) (simp add: window_step_def Let_def fold_zero_cube_shape)

lemma window_step_cell:
  "cell (window_step nsmall threshold (i, j, k) img) ix =
     (if window_fires nsmall threshold (i, j, k) img \<and> in_cube (i + 1, j + 1, k + 1) nsmall ix
      then Fin 0 else cell img ix)"
proof (cases "nsmall = 0")
  case True
  then show ?thesis
    by (simp add: window_step_def Let_def fold_zero_cube_cell)
next
  case False
  then have "idxs3 nsmall nsmall nsmall \<noteq> []"
    by (simp add: idxs3_empty_iff)
  then show ?thesis
    by (simp add: window_step_def window_fires_def Let_def fold_zero_cube_cell)
qed

lemma fold_window_step_shape:
  "shape (fold (window_step nsmall threshold) ws img) = shape img"
  by (induction ws arbitrary: img) simp_all

lemma fold_window_step_cases:
  "cell (fold (window_step nsmall threshold) ws img) ix = cell img ix \<or>
   cell (fold (window_step nsmall threshold) ws img) ix = Fin 0"
proof (induction ws arbitrary: img)
  case Nil
  then show ?case by simp
next
  case (Cons w ws)
  obtain i j k where w: "w = (i, j, k)"
    by (cases w) auto
  from Cons.IH [of "window_step nsmall threshold w img"] show ?case
    by (auto simp: w window_step_cell split: if_splits)
qed

lemma fold_window_step_zero:
  "cell img ix = Fin 0 \<Longrightarrow> cell (fold (window_step nsmall threshold) ws img) ix = Fin 0"
proof (induction ws arbitrary: img)
  case Nil
  then show ?case by simp
next
  case (Cons w ws)
  obtain i j k where w: "w = (i, j, k)"
    by (cases w) auto
  have "cell (window_step nsmall threshold w img) ix = Fin 0"
    using Cons.prems by (simp add: w window_step_cell)
  from Cons.IH [OF this] show ?case by simp
qed

lemma fold_window_step_frame:
  "\<forall>(i, j, k) \<in> set ws. \<not> in_cube (i + 1, j + 1, k + 1) nsmall ix \<Longrightarrow>
   cell (fold (window_step nsmall threshold) ws img) ix = cell img ix"
proof (induction ws arbitrary: img)
  case Nil
  then show ?case by simp
next
  case (Cons w ws)
  obtain i j k where w: "w = (i, j, k)"
    by (cases w) auto
  have "cell (window_step nsmall threshold w img) ix = cell img ix"
    using Cons.prems by (simp add: w window_step_cell)
  moreover have "\<forall>(i, j, k) \<in> set ws. \<not> in_cube (i + 1, j + 1, k + 1) nsmall ix"
    using Cons.prems by simp
  ultimately show ?case
    using Cons.IH [of "window_step nsmall threshold w img"] by simp
qed

lemma shape_correct_by_threshold: "shape (correct_by_threshold img threshold) = shape img"
  by (cases "shape img") (simp add: correct_by_threshold_def Let_def fold_window_step_shape)

text \<open>The interior cube of a window of the loop lies strictly inside the volume.\<close>

lemma interior_strictly_inside:
  assumes "(i, j, k) \<in> set (idxs3 (sx + 1 - (nsmall + 2)) (sy + 1 - (nsmall + 2)) (sz + 1 - (nsmall + 2)))"
    and "in_cube (i + 1, j + 1, k + 1) nsmall (x, y, z)"
  shows "0 < x \<and> x + 1 < sx \<and> 0 < y \<and> y + 1 < sy \<and> 0 < z \<and> z + 1 < sz"
  using assms by (auto simp: set_idxs3 in_cube_def)

lemma correct_by_threshold_changed_inside:
  assumes s: "shape img = (sx, sy, sz)"
    and c: "cell (correct_by_threshold img threshold) (x, y, z) \<noteq> cell img (x, y, z)"
  shows "0 < x \<and> x + 1 < sx \<and> 0 < y \<and> y + 1 < sy \<and> 0 < z \<and> z + 1 < sz"
proof -
  let ?ns = "nsmall_loop threshold 1"
  let ?ws = "idxs3 (sx + 1 - (?ns + 2)) (sy + 1 - (?ns + 2)) (sz + 1 - (?ns + 2))"
  have out: "correct_by_threshold img threshold = fold (window_step ?ns threshold) ?ws img"
    by (simp add: correct_by_threshold_def s Let_def)
  have "\<not> (\<forall>(i, j, k) \<in> set ?ws. \<not> in_cube (i + 1, j + 1, k + 1) ?ns (x, y, z))"
    using c fold_window_step_frame [of ?ws ?ns "(x, y, z)" threshold img] unfolding out by blast
  then obtain i j k where "(i, j, k) \<in> set ?ws" "in_cube (i + 1, j + 1, k + 1) ?ns (x, y, z)"
    by auto
  then show ?thesis
    by (rule interior_strictly_inside)
qed

section \<open>Cluster-size correction: counting\<close>

lemma length_concat_map_const:
  "(\<And>x. x \<in> set xs \<Longrightarrow> length (f x) = n) \<Longrightarrow> length (concat (map f xs)) = length xs * n"
  by (induction xs) simp_all

lemma length_idxs3: "length (idxs3 a b c) = a * b * c"
proof -
  have "length (concat (map (\<lambda>j. map (\<lambda>k. (i, j, k)) [0..<c]) [0..<b])) = b * c" for i :: nat
    by (subst length_concat_map_const [where n = c]) simp_all
  then show ?thesis
    unfolding idxs3_def by (subst length_concat_map_const [where n = "b * c"]) simp_all
qed

lemma length_idxs2: "length (idxs2 a b) = a * b"
  unfolding idxs2_def by (subst length_concat_map_const [where n = b]) simp_all

lemma set_idxs2: "set (idxs2 a b) = {(l, m). l < a \<and> m < b}"
  by (fastforce simp: idxs2_def image_iff)

lemma count_list_map: "count_list (map f xs) y = length (filter (\<lambda>x. f x = y) xs)"
  by (induction xs) simp_all

lemma length_filter_all: "length (filter P xs) = length xs \<longleftrightarrow> (\<forall>x \<in> set xs. P x)"
proof
  assume e: "length (filter P xs) = length xs"
  show "\<forall>x \<in> set xs. P x"
  proof (rule ccontr)
    assume "\<not> (\<forall>x \<in> set xs. P x)"
    then obtain x where "x \<in> set xs" "\<not> P x" by blast
    then have "length (filter P xs) < length xs" by (rule length_filter_less)
    with e show False by simp
  qed
next
  assume "\<forall>x \<in> set xs. P x"
  then show "length (filter P xs) = length xs" by simp
qed

lemma length_filter_mono:
  "(\<And>x. x \<in> set xs \<Longrightarrow> P x \<Longrightarrow> Q x) \<Longrightarrow> length (filter P xs) \<le> length (filter Q xs)"
  by (induction xs) auto

lemma length_filter_not: "length xs - length (filter P xs) = length (filter (\<lambda>x. \<not> P x) xs)"
  using sum_length_filter_compl [of P xs] by (simp add: comp_def)


section \<open>Cluster-size correction: a window with a clean shell\<close>

lemma length_cube_list: "length (cube_list img c n) = n * n * n"
  by (cases c) (simp add: cube_list_def length_idxs3)

lemma in_cube_offset:
  "in_cube (a, b, c) n (x, y, z) \<longleftrightarrow>
     (\<exists>l m p. (l, m, p) \<in> set (idxs3 n n n) \<and> x = a + l \<and> y = b + m \<and> z = c + p)"
proof
  assume h: "in_cube (a, b, c) n (x, y, z)"
  then have "(x - a, y - b, z - c) \<in> set (idxs3 n n n)"
    by (auto simp: in_cube_def set_idxs3)
  moreover from h have "x = a + (x - a) \<and> y = b + (y - b) \<and> z = c + (z - c)"
    by (simp add: in_cube_def)
  ultimately show "\<exists>l m p. (l, m, p) \<in> set (idxs3 n n n) \<and> x = a + l \<and> y = b + m \<and> z = c + p"
    by blast
next
  assume "\<exists>l m p. (l, m, p) \<in> set (idxs3 n n n) \<and> x = a + l \<and> y = b + m \<and> z = c + p"
  then show "in_cube (a, b, c) n (x, y, z)"
    by (auto simp: in_cube_def set_idxs3)
qed

lemma cube_all_zero:
  assumes full: "count_list (cube_list img (a, b, c) n) (Fin 0) = n * n * n"
    and ix: "in_cube (a, b, c) n ix"
  shows "cell img ix = Fin 0"
proof -
  obtain x y z where xyz: "ix = (x, y, z)"
    by (cases ix) auto
  from ix obtain l m p where lmp: "(l, m, p) \<in> set (idxs3 n n n)" "x = a + l" "y = b + m" "z = c + p"
    unfolding xyz in_cube_offset by blast
  have "length (filter (\<lambda>lmp. (case lmp of (l, m, p) \<Rightarrow> cell img (a + l, b + m, c + p)) = Fin 0)
          (idxs3 n n n)) = length (idxs3 n n n)"
    using full by (simp add: cube_list_def count_list_map length_idxs3)
  then have "\<forall>lmp \<in> set (idxs3 n n n).
      (case lmp of (l, m, p) \<Rightarrow> cell img (a + l, b + m, c + p)) = Fin 0"
    by (simp only: length_filter_all)
  with lmp(1) have "cell img (a + l, b + m, c + p) = Fin 0"
    by fastforce
  then show ?thesis
    by (simp add: xyz lmp)
qed

lemma interior_count_le:
  assumes z: "\<And>iy. cell img iy = Fin 0 \<Longrightarrow> cell img1 iy = Fin 0"
  shows "n * n * n - count_list (cube_list img1 (a, b, c) n) (Fin 0)
           \<le> card {ix. in_cube (a, b, c) n ix \<and> cell img ix \<noteq> Fin 0}"
proof -
  let ?off = "\<lambda>(l, m, p). (a + l, b + m, c + p)"
  let ?xs = "idxs3 n n n"
  let ?nz1 = "filter (\<lambda>lmp. cell img1 (?off lmp) \<noteq> Fin 0) ?xs"
  let ?nz = "filter (\<lambda>lmp. cell img (?off lmp) \<noteq> Fin 0) ?xs"
  have c1: "count_list (cube_list img1 (a, b, c) n) (Fin 0)
      = length (filter (\<lambda>lmp. cell img1 (?off lmp) = Fin 0) ?xs)"
    by (simp add: cube_list_def count_list_map case_prod_unfold)
  have "n * n * n - count_list (cube_list img1 (a, b, c) n) (Fin 0) = length ?nz1"
    unfolding c1 using length_filter_not [of ?xs "\<lambda>lmp. cell img1 (?off lmp) = Fin 0"]
    by (simp add: length_idxs3)
  also have "\<dots> \<le> length ?nz"
    by (rule length_filter_mono) (use z in blast)
  also have "\<dots> = card (set ?nz)"
    by (rule distinct_card [symmetric]) (simp add: distinct_idxs3)
  also have "\<dots> = card (?off ` set ?nz)"
    by (rule card_image [symmetric]) (auto simp: inj_on_def)
  also have "?off ` set ?nz = {ix. in_cube (a, b, c) n ix \<and> cell img ix \<noteq> Fin 0}"
  proof (rule set_eqI)
    fix ix :: idx3
    obtain x y z where xyz: "ix = (x, y, z)"
      by (cases ix) auto
    show "ix \<in> ?off ` set ?nz \<longleftrightarrow> ix \<in> {ix. in_cube (a, b, c) n ix \<and> cell img ix \<noteq> Fin 0}"
      unfolding xyz mem_Collect_eq in_cube_offset by (auto simp: image_iff)
  qed
  finally show ?thesis .
qed

lemma fold_face_step_zero:
  assumes "\<forall>(l, m) \<in> set xs.
      cell img (i + l, j + m, k) = Fin 0 \<and> cell img (i + l, j + m, k + nl - 1) = Fin 0"
  shows "fold (face_step img (i, j, k) nl) xs n = n + 2 * length xs"
  using assms by (induction xs arbitrary: n) (auto simp: face_step_def Let_def)

lemma fold_side_step_zero:
  assumes "\<forall>(l, m) \<in> set xs.
      cell img (i + l, j, k + m) = Fin 0 \<and> cell img (i, j + l + 1, k + m) = Fin 0 \<and>
      cell img (i + nl - 1, j + l, k + m) = Fin 0 \<and> cell img (i + l + 1, j + nl - 1, k + m) = Fin 0"
  shows "fold (side_step img (i, j, k) nl) xs n = n + 4 * length xs"
  using assms by (induction xs arbitrary: n) (auto simp: side_step_def Let_def)

lemma shell_size:
  "((ns::nat) + 2) * (ns + 2) * (ns + 2) - ns * ns * ns = 2 * ((ns + 2) * (ns + 2)) + 4 * ((ns + 1) * ns)"
proof -
  have "(ns + 2) * (ns + 2) * (ns + 2) = ns * ns * ns + (2 * ((ns + 2) * (ns + 2)) + 4 * ((ns + 1) * ns))"
    by (simp add: algebra_simps)
  then show ?thesis by simp
qed

lemma shell_zeros_full:
  assumes shell: "\<And>ix. in_cube (i, j, k) (ns + 2) ix \<Longrightarrow>
      \<not> in_cube (i + 1, j + 1, k + 1) ns ix \<Longrightarrow> cell img ix = Fin 0"
  shows "shell_zeros img (i, j, k) (ns + 2) = (ns + 2) * (ns + 2) * (ns + 2) - ns * ns * ns"
proof -
  have faces: "fold (face_step img (i, j, k) (ns + 2)) (idxs2 (ns + 2) (ns + 2)) 0
      = 0 + 2 * length (idxs2 (ns + 2) (ns + 2))"
  proof (rule fold_face_step_zero, clarify)
    fix l m
    assume "(l, m) \<in> set (idxs2 (ns + 2) (ns + 2))"
    then have lm: "l < ns + 2" "m < ns + 2"
      by (simp_all add: set_idxs2)
    have "cell img (i + l, j + m, k) = Fin 0"
      by (rule shell) (use lm in \<open>simp_all add: in_cube_def\<close>)
    moreover have "cell img (i + l, j + m, k + (ns + 2) - 1) = Fin 0"
      by (rule shell) (use lm in \<open>simp_all add: in_cube_def\<close>)
    ultimately show "cell img (i + l, j + m, k) = Fin 0 \<and>
        cell img (i + l, j + m, k + (ns + 2) - 1) = Fin 0"
      by simp
  qed
  have sides: "fold (side_step img (i, j, k) (ns + 2)) (idxs2 (ns + 1) ns) n
      = n + 4 * length (idxs2 (ns + 1) ns)" for n
  proof (rule fold_side_step_zero, clarify)
    fix l m
    assume "(l, m) \<in> set (idxs2 (ns + 1) ns)"
    then have lm: "l < ns + 1" "m < ns"
      by (simp_all add: set_idxs2)
    have "cell img (i + l, j, k + m) = Fin 0"
      by (rule shell) (use lm in \<open>simp_all add: in_cube_def\<close>)
    moreover have "cell img (i, j + l + 1, k + m) = Fin 0"
      by (rule shell) (use lm in \<open>simp_all add: in_cube_def\<close>)
    moreover have "cell img (i + (ns + 2) - 1, j + l, k + m) = Fin 0"
      by (rule shell) (use lm in \<open>simp_all add: in_cube_def\<close>)
    moreover have "cell img (i + l + 1, j + (ns + 2) - 1, k + m) = Fin 0"
      by (rule shell) (use lm in \<open>simp_all add: in_cube_def\<close>)
    ultimately show "cell img (i + l, j, k + m) = Fin 0 \<and> cell img (i, j + l + 1, k + m) = Fin 0 \<and>
        cell img (i + (ns + 2) - 1, j + l, k + m) = Fin 0 \<and>
        cell img (i + l + 1, j + (ns + 2) - 1, k + m) = Fin 0"
      by simp
  qed
  have n1: "ns + 2 - 1 = ns + 1" and n2: "ns + 2 - 2 = ns"
    by simp_all
  show ?thesis
    unfolding shell_zeros_def n1 n2 faces sides shell_size by (simp add: length_idxs2)
qed


lemma enclosed_window_zeroed:
  assumes w: "(i, j, k) \<in> set ws"
    and shell: "\<And>iy. in_cube (i, j, k) (ns + 2) iy \<Longrightarrow>
      \<not> in_cube (i + 1, j + 1, k + 1) ns iy \<Longrightarrow> cell img iy = Fin 0"
    and small: "int (card {iy. in_cube (i + 1, j + 1, k + 1) ns iy \<and> cell img iy \<noteq> Fin 0}) < t"
    and inner: "in_cube (i + 1, j + 1, k + 1) ns ix"
  shows "cell (fold (window_step ns t) ws img) ix = Fin 0"
proof -
  from w obtain pre post where ws: "ws = pre @ (i, j, k) # post"
    by (auto dest: split_list)
  let ?img1 = "fold (window_step ns t) pre img"
  have z1: "cell ?img1 iy = Fin 0" if "cell img iy = Fin 0" for iy
    using that by (rule fold_window_step_zero)
  have s1: "shell_zeros ?img1 (i, j, k) (ns + 2) = (ns + 2) * (ns + 2) * (ns + 2) - ns * ns * ns"
    by (rule shell_zeros_full) (use shell z1 in blast)
  have "ns * ns * ns - count_list (cube_list ?img1 (i + 1, j + 1, k + 1) ns) (Fin 0)
      \<le> card {iy. in_cube (i + 1, j + 1, k + 1) ns iy \<and> cell img iy \<noteq> Fin 0}"
    by (rule interior_count_le) (rule z1)
  with small have c1:
    "int (ns * ns * ns - count_list (cube_list ?img1 (i + 1, j + 1, k + 1) ns) (Fin 0)) < t"
    by linarith
  have big: "in_cube (i, j, k) (ns + 2) ix"
    using inner by (cases ix) (auto simp: in_cube_def)
  have "cell (window_step ns t (i, j, k) ?img1) ix = Fin 0"
  proof (cases "window_fires ns t (i, j, k) ?img1")
    case True
    then show ?thesis
      using inner by (simp add: window_step_cell)
  next
    case False
    then have "\<not> count_list (cube_list ?img1 (i, j, k) (ns + 2)) (Fin 0)
        < (ns + 2) * (ns + 2) * (ns + 2)"
      using s1 c1 by (simp add: window_fires_def)
    moreover have "count_list (cube_list ?img1 (i, j, k) (ns + 2)) (Fin 0)
        \<le> (ns + 2) * (ns + 2) * (ns + 2)"
      using count_le_length [of "cube_list ?img1 (i, j, k) (ns + 2)" "Fin 0"]
      by (simp only: length_cube_list)
    ultimately have "count_list (cube_list ?img1 (i, j, k) (ns + 2)) (Fin 0)
        = (ns + 2) * (ns + 2) * (ns + 2)"
      by linarith
    then have "cell ?img1 ix = Fin 0"
      using big by (rule cube_all_zero)
    then show ?thesis
      by (simp add: window_step_cell)
  qed
  then have "cell (fold (window_step ns t) post (window_step ns t (i, j, k) ?img1)) ix = Fin 0"
    by (rule fold_window_step_zero)
  then show ?thesis
    by (simp add: ws)
qed

text \<open>The loop returns the least integer from its start on whose cube is not below the threshold.\<close>

lemma nsmall_loop_least:
  "n \<le> nsmall_loop t n \<and> \<not> int (nsmall_loop t n * nsmall_loop t n * nsmall_loop t n) < t \<and>
   (\<forall>m. n \<le> m \<and> m < nsmall_loop t n \<longrightarrow> int (m * m * m) < t)"
proof (induction t n rule: nsmall_loop.induct)
  case (1 t n)
  show ?case
  proof (cases "int (n * n * n) < t")
    case True
    then have e: "nsmall_loop t n = nsmall_loop t (n + 1)"
      by (subst nsmall_loop.simps) simp
    from "1.IH" [OF True] have ih: "n + 1 \<le> nsmall_loop t (n + 1)"
      "\<not> int (nsmall_loop t (n + 1) * nsmall_loop t (n + 1) * nsmall_loop t (n + 1)) < t"
      "\<forall>m. n + 1 \<le> m \<and> m < nsmall_loop t (n + 1) \<longrightarrow> int (m * m * m) < t"
      by blast+
    have "\<forall>m. n \<le> m \<and> m < nsmall_loop t (n + 1) \<longrightarrow> int (m * m * m) < t"
    proof (intro allI impI)
      fix m assume m: "n \<le> m \<and> m < nsmall_loop t (n + 1)"
      show "int (m * m * m) < t"
      proof (cases "m = n")
        case True
        with \<open>int (n * n * n) < t\<close> show ?thesis by simp
      next
        case False
        with m have "n + 1 \<le> m \<and> m < nsmall_loop t (n + 1)" by simp
        with ih(3) show ?thesis by blast
      qed
    qed
    with ih(1,2) show ?thesis
      unfolding e by simp
  next
    case False
    then have "nsmall_loop t n = n"
      by (subst nsmall_loop.simps) simp
    with False show ?thesis by simp
  qed
qed

section \<open>Cluster-size correction: results\<close>

lemma shape_sparse_map: "shape (sparse_map ixs) = (4, 4, 4)"
  by (simp add: sparse_map_def)

text \<open>
  C5. For every 3-D map and integer threshold, the map produced by
  \<^verbatim>\<open>correct_by_threshold\<close> has the shape of the input, and every voxel of it either
  equals the corresponding input voxel or is zero.
\<close>

theorem correct_by_threshold_only_zeroes:
  "shape (correct_by_threshold img threshold) = shape img \<and>
   (\<forall>ix. inb img ix \<longrightarrow>
      cell (correct_by_threshold img threshold) ix = cell img ix \<or>
      cell (correct_by_threshold img threshold) ix = Fin 0)"
proof -
  have "cell (correct_by_threshold img threshold) ix = cell img ix \<or>
      cell (correct_by_threshold img threshold) ix = Fin 0" for ix
    by (cases "shape img") (simp add: correct_by_threshold_def Let_def fold_window_step_cases)
  then show ?thesis
    by (simp add: shape_correct_by_threshold)
qed

theorem correct_by_threshold_only_zeroes_witness:
  "inb (sparse_map [(1, 1, 2), (0, 1, 2)]) (1, 1, 2) \<and>
   inb (sparse_map [(1, 1, 2), (0, 1, 2)]) (0, 1, 2) \<and>
   shape (correct_by_threshold (sparse_map [(1, 1, 2), (0, 1, 2)]) 2) = (4, 4, 4) \<and>
   cell (sparse_map [(1, 1, 2), (0, 1, 2)]) (1, 1, 2) = Fin 1 \<and>
   cell (correct_by_threshold (sparse_map [(1, 1, 2), (0, 1, 2)]) 2) (1, 1, 2) = Fin 0 \<and>
   cell (correct_by_threshold (sparse_map [(1, 1, 2), (0, 1, 2)]) 2) (0, 1, 2)
     = cell (sparse_map [(1, 1, 2), (0, 1, 2)]) (0, 1, 2)"
proof -
  let ?m = "sparse_map [(1, 1, 2), (0, 1, 2)]"
  note t = correct_by_threshold_only_zeroes [of ?m 2]
  have b: "inb ?m (1, 1, 2)" "inb ?m (0, 1, 2)"
    by (simp_all add: inb_def shape_sparse_map)
  have c: "cell ?m (1, 1, 2) = Fin 1" "cell ?m (0, 1, 2) = Fin 1"
    by (simp_all add: sparse_map_def)
  have n: "cell (correct_by_threshold ?m 2) (1, 1, 2) \<noteq> cell ?m (1, 1, 2)"
    "cell (correct_by_threshold ?m 2) (0, 1, 2) \<noteq> Fin 0"
    by code_simp+
  have "cell (correct_by_threshold ?m 2) (1, 1, 2) = Fin 0"
    using t b(1) n(1) by blast
  moreover have "cell (correct_by_threshold ?m 2) (0, 1, 2) = cell ?m (0, 1, 2)"
    using t b(2) n(2) by blast
  moreover have "shape (correct_by_threshold ?m 2) = (4, 4, 4)"
    using t by (simp add: shape_sparse_map)
  ultimately show ?thesis
    using b c by simp
qed

text \<open>
  C9. \<^verbatim>\<open>correct_by_threshold\<close> never modifies a voxel on the boundary of the volume (index
  0 or size - 1 along some axis): every voxel whose value changes is set to zero and has all
  three indices strictly between 0 and the dimension minus 1. So a non-zero boundary voxel,
  and with it any cluster that touches the boundary, is never fully removed.
\<close>

theorem correct_by_threshold_boundary_untouched:
  assumes "shape img = (sx, sy, sz)"
  shows "(\<forall>x y z. x < sx \<and> y < sy \<and> z < sz \<and>
            (x = 0 \<or> x = sx - 1 \<or> y = 0 \<or> y = sy - 1 \<or> z = 0 \<or> z = sz - 1) \<longrightarrow>
            cell (correct_by_threshold img threshold) (x, y, z) = cell img (x, y, z)) \<and>
         (\<forall>x y z. cell (correct_by_threshold img threshold) (x, y, z) \<noteq> cell img (x, y, z) \<longrightarrow>
            cell (correct_by_threshold img threshold) (x, y, z) = Fin 0 \<and>
            0 < x \<and> x < sx - 1 \<and> 0 < y \<and> y < sy - 1 \<and> 0 < z \<and> z < sz - 1)"
proof -
  have inside: "0 < x \<and> x + 1 < sx \<and> 0 < y \<and> y + 1 < sy \<and> 0 < z \<and> z + 1 < sz"
    if "cell (correct_by_threshold img threshold) (x, y, z) \<noteq> cell img (x, y, z)" for x y z
    using assms that by (rule correct_by_threshold_changed_inside)
  have zero: "cell (correct_by_threshold img threshold) ix = Fin 0"
    if "cell (correct_by_threshold img threshold) ix \<noteq> cell img ix" for ix
    using that assms
    by (simp add: correct_by_threshold_def Let_def)
      (use fold_window_step_cases in blast)
  have "cell (correct_by_threshold img threshold) (x, y, z) = cell img (x, y, z)"
    if "x = 0 \<or> x = sx - 1 \<or> y = 0 \<or> y = sy - 1 \<or> z = 0 \<or> z = sz - 1" for x y z
  proof (rule ccontr)
    assume "cell (correct_by_threshold img threshold) (x, y, z) \<noteq> cell img (x, y, z)"
    from inside [OF this] that show False by auto
  qed
  moreover have "cell (correct_by_threshold img threshold) (x, y, z) = Fin 0 \<and>
      0 < x \<and> x < sx - 1 \<and> 0 < y \<and> y < sy - 1 \<and> 0 < z \<and> z < sz - 1"
    if "cell (correct_by_threshold img threshold) (x, y, z) \<noteq> cell img (x, y, z)" for x y z
    using inside [OF that] zero [OF that] by auto
  ultimately show ?thesis by blast
qed

theorem correct_by_threshold_boundary_untouched_witness:
  "shape (sparse_map [(2, 2, 2), (3, 2, 2)]) = (4, 4, 4) \<and>
   cell (sparse_map [(2, 2, 2), (3, 2, 2)]) (3, 2, 2) = Fin 1 \<and>
   cell (correct_by_threshold (sparse_map [(2, 2, 2), (3, 2, 2)]) 2) (3, 2, 2) = Fin 1 \<and>
   cell (sparse_map [(2, 2, 2), (3, 2, 2)]) (2, 2, 2) = Fin 1 \<and>
   cell (correct_by_threshold (sparse_map [(2, 2, 2), (3, 2, 2)]) 2) (2, 2, 2) = Fin 0"
proof -
  let ?m = "sparse_map [(2, 2, 2), (3, 2, 2)]"
  have s: "shape ?m = (4, 4, 4)"
    by (rule shape_sparse_map)
  note t = correct_by_threshold_boundary_untouched [OF s, of 2]
  have c: "cell ?m (3, 2, 2) = Fin 1" "cell ?m (2, 2, 2) = Fin 1"
    by (simp_all add: sparse_map_def)
  have "(3::nat) < 4 \<and> (2::nat) < 4 \<and> (2::nat) < 4 \<and>
      ((3::nat) = 0 \<or> (3::nat) = 4 - 1 \<or> (2::nat) = 0 \<or> (2::nat) = 4 - 1 \<or> (2::nat) = 0 \<or> (2::nat) = 4 - 1)"
    by simp
  with t have "cell (correct_by_threshold ?m 2) (3, 2, 2) = cell ?m (3, 2, 2)"
    by blast
  moreover have "cell (correct_by_threshold ?m 2) (2, 2, 2) \<noteq> cell ?m (2, 2, 2)"
    by code_simp
  with t have "cell (correct_by_threshold ?m 2) (2, 2, 2) = Fin 0"
    by blast
  ultimately show ?thesis
    using s c by simp
qed

text \<open>
  The second counting loop reads the layers \<open>k + m\<close> for \<open>m < nlarge - 2\<close>, so the ring of
  the layer \<open>k + nlarge - 2\<close> is never looked at. In the 4 x 4 x 4 map whose only non-zero
  voxels are the neighbours \<open>(1, 1, 2)\<close> and \<open>(0, 1, 2)\<close>, the second lies on that ring:
  with threshold 2 the window counts a clean shell and one interior voxel, and clears
  \<open>(1, 1, 2)\<close> out of a cluster of two voxels. With the neighbour on a layer that is
  looked at, \<open>(0, 1, 1)\<close>, nothing is cleared.
\<close>

lemma shell_check_skips_a_layer:
  "cell (correct_by_threshold (sparse_map [(1, 1, 2), (0, 1, 2)]) 2) (1, 1, 2) = Fin 0 \<and>
   cell (correct_by_threshold (sparse_map [(1, 1, 2), (0, 1, 2)]) 2) (0, 1, 2) = Fin 1 \<and>
   cell (correct_by_threshold (sparse_map [(1, 1, 2), (0, 1, 1)]) 2) (1, 1, 2) = Fin 1 \<and>
   cell (correct_by_threshold (sparse_map [(1, 1, 2), (0, 1, 1)]) 2) (0, 1, 1) = Fin 1"
  by code_simp

text \<open>
  C2, as stated: a cluster below the threshold is not always cleared. The 1 x 1 x 1 map
  whose voxel holds 1 has a single cluster of one voxel; with threshold 2 no window fits
  into the volume and the voxel keeps its value.
\<close>

theorem small_cluster_kept_counterexample:
  "shape single_voxel_map = (1, 1, 1) \<and> cell single_voxel_map (0, 0, 0) = Fin 1 \<and>
   (1::int) < 2 \<and> cell (correct_by_threshold single_voxel_map 2) (0, 0, 0) = Fin 1"
  by code_simp

text \<open>
  C2, amended. Let \<open>nsmall\<close> be the value the routine computes from the threshold (the least
  positive integer whose cube is at least the threshold). The returned map has the shape of
  the input. If a cube of side \<open>nsmall + 2\<close> lies inside the volume, all voxels of its
  one-voxel-thick shell are zero in the input, and its interior cube of side \<open>nsmall\<close> holds
  fewer non-zero voxels than the threshold, then every voxel of that interior is zero in the
  returned map.
\<close>

theorem correct_by_threshold_clears_enclosed:
  assumes s: "shape img = (sx, sy, sz)"
    and ns: "nsmall = nsmall_loop threshold 1"
    and inside: "i + nsmall + 2 \<le> sx \<and> j + nsmall + 2 \<le> sy \<and> k + nsmall + 2 \<le> sz"
    and shell: "\<forall>ix. in_cube (i, j, k) (nsmall + 2) ix \<and>
        \<not> in_cube (i + 1, j + 1, k + 1) nsmall ix \<longrightarrow> cell img ix = Fin 0"
    and small: "int (card {ix. in_cube (i + 1, j + 1, k + 1) nsmall ix \<and> cell img ix \<noteq> Fin 0})
        < threshold"
  shows "shape (correct_by_threshold img threshold) = shape img \<and>
         (\<forall>ix. in_cube (i + 1, j + 1, k + 1) nsmall ix \<longrightarrow>
            cell (correct_by_threshold img threshold) ix = Fin 0)"
proof -
  let ?ws = "idxs3 (sx + 1 - (nsmall + 2)) (sy + 1 - (nsmall + 2)) (sz + 1 - (nsmall + 2))"
  have out: "correct_by_threshold img threshold = fold (window_step nsmall threshold) ?ws img"
    by (simp add: correct_by_threshold_def s ns Let_def)
  have w: "(i, j, k) \<in> set ?ws"
    unfolding set_idxs3 using inside by auto
  have "cell (fold (window_step nsmall threshold) ?ws img) ix = Fin 0"
    if "in_cube (i + 1, j + 1, k + 1) nsmall ix" for ix
    using w _ small that by (rule enclosed_window_zeroed) (use shell in blast)
  then show ?thesis
    by (simp add: out fold_window_step_shape)
qed

theorem correct_by_threshold_clears_enclosed_witness:
  "shape (sparse_map [(1, 2, 1), (2, 2, 1)]) = (4, 4, 4) \<and>
   nsmall_loop 3 1 = 2 \<and>
   card {ix. in_cube (1, 1, 1) 2 ix \<and> cell (sparse_map [(1, 2, 1), (2, 2, 1)]) ix \<noteq> Fin 0} = 2 \<and>
   cell (sparse_map [(1, 2, 1), (2, 2, 1)]) (1, 2, 1) = Fin 1 \<and>
   cell (sparse_map [(1, 2, 1), (2, 2, 1)]) (2, 2, 1) = Fin 1 \<and>
   cell (correct_by_threshold (sparse_map [(1, 2, 1), (2, 2, 1)]) 3) (1, 2, 1) = Fin 0 \<and>
   cell (correct_by_threshold (sparse_map [(1, 2, 1), (2, 2, 1)]) 3) (2, 2, 1) = Fin 0"
proof -
  let ?m = "sparse_map [(1, 2, 1), (2, 2, 1)]"
  have s: "shape ?m = (4, 4, 4)"
    by (rule shape_sparse_map)
  have ns: "2 = nsmall_loop 3 1"
    by code_simp
  have inside: "0 + 2 + 2 \<le> (4::nat) \<and> 0 + 2 + 2 \<le> (4::nat) \<and> 0 + 2 + 2 \<le> (4::nat)"
    by simp
  have shell: "\<forall>ix. in_cube (0, 0, 0) (2 + 2) ix \<and> \<not> in_cube (0 + 1, 0 + 1, 0 + 1) 2 ix \<longrightarrow>
      cell ?m ix = Fin 0"
    by (auto simp: sparse_map_def in_cube_def)
  have nz: "{ix. in_cube (0 + 1, 0 + 1, 0 + 1) 2 ix \<and> cell ?m ix \<noteq> Fin 0} = {(1, 2, 1), (2, 2, 1)}"
    by (auto simp: sparse_map_def in_cube_def)
  have small: "int (card {ix. in_cube (0 + 1, 0 + 1, 0 + 1) 2 ix \<and> cell ?m ix \<noteq> Fin 0}) < 3"
    unfolding nz by simp
  note t = correct_by_threshold_clears_enclosed [OF s ns inside shell small]
  have i1: "in_cube (0 + 1, 0 + 1, 0 + 1) 2 (1, 2, 1)" and i2: "in_cube (0 + 1, 0 + 1, 0 + 1) 2 (2, 2, 1)"
    by (simp_all add: in_cube_def)
  have r1: "cell (correct_by_threshold ?m 3) (1, 2, 1) = Fin 0"
    using t i1 by blast
  have r2: "cell (correct_by_threshold ?m 3) (2, 2, 1) = Fin 0"
    using t i2 by blast
  have c: "cell ?m (1, 2, 1) = Fin 1" "cell ?m (2, 2, 1) = Fin 1"
    by (simp_all add: sparse_map_def)
  have n2: "card {ix. in_cube (1, 1, 1) 2 ix \<and> cell ?m ix \<noteq> Fin 0} = 2"
    using nz by simp
  show ?thesis
    using s ns [symmetric] n2 c r1 r2 by simp
qed

section \<open>Cluster-size correction on the caller's array: results\<close>

lemma fold_zero_cube_ref:
  "fold (\<lambda>lmp h. h(img := zero_cube (h img) c n)) xs h
     = h(img := fold (\<lambda>lmp a. zero_cube a c n) xs (h img))"
  by (induction xs arbitrary: h) simp_all

lemma window_step_ref_eq:
  "window_step_ref nsmall threshold img w h = h(img := window_step nsmall threshold w (h img))"
  by (cases w) (simp add: window_step_ref_def window_step_def Let_def fold_zero_cube_ref)

lemma fold_window_step_ref:
  "fold (window_step_ref nsmall threshold img) ws h
     = h(img := fold (window_step nsmall threshold) ws (h img))"
  by (induction ws arbitrary: h) (simp_all add: window_step_ref_eq)

text \<open>
  C10. \<^verbatim>\<open>correct_by_threshold\<close> returns the name of the array it was given, and after the
  call that array holds the corrected map: the caller's array and the returned map are one
  object. No other object is created or changed, so the original data is kept nowhere.
\<close>

theorem correct_by_threshold_in_place:
  "fst (correct_by_threshold_ref img threshold h) = img \<and>
   snd (correct_by_threshold_ref img threshold h) img = correct_by_threshold (h img) threshold \<and>
   snd (correct_by_threshold_ref img threshold h) (fst (correct_by_threshold_ref img threshold h))
     = snd (correct_by_threshold_ref img threshold h) img \<and>
   snd (correct_by_threshold_ref img threshold h) = h(img := correct_by_threshold (h img) threshold)"
  by (cases "shape (h img)")
    (simp add: correct_by_threshold_ref_def correct_by_threshold_def Let_def fold_window_step_ref)

theorem correct_by_threshold_in_place_witness:
  "cell (example_heap 7) (1, 1, 1) = Fin 1 \<and>
   fst (correct_by_threshold_ref 7 2 example_heap) = 7 \<and>
   cell (snd (correct_by_threshold_ref 7 2 example_heap) 7) (1, 1, 1) = Fin 0 \<and>
   snd (correct_by_threshold_ref 7 2 example_heap) 3 = example_heap 3"
proof -
  note t = correct_by_threshold_in_place [of 7 2 example_heap]
  have h7: "example_heap 7 = sparse_map [(1, 1, 1)]"
    by (simp add: example_heap_def)
  have "cell (correct_by_threshold (sparse_map [(1, 1, 1)]) 2) (1, 1, 1) = Fin 0"
    by code_simp
  then have "cell (snd (correct_by_threshold_ref 7 2 example_heap) 7) (1, 1, 1) = Fin 0"
    using t by (simp add: h7)
  moreover have "snd (correct_by_threshold_ref 7 2 example_heap) 3 = example_heap 3"
    using t by simp
  moreover have "cell (example_heap 7) (1, 1, 1) = Fin 1"
    by (simp add: h7 sparse_map_def)
  ultimately show ?thesis
    using t by simp
qed

section \<open>RDM plots: results\<close>

lemma sorted_le_last: "sorted xs \<Longrightarrow> x \<in> set xs \<Longrightarrow> x \<le> last xs"
  by (induction xs) auto

lemma last_sort_remdups:
  assumes "xs \<noteq> []"
  shows "last (sort (remdups xs)) = Max (set xs)"
proof -
  let ?ys = "sort (remdups xs)"
  have ne: "?ys \<noteq> []"
    using assms by (metis set_empty set_remdups set_sort)
  have "Max (set ?ys) = last ?ys"
  proof (rule Max_eqI)
    show "finite (set ?ys)" by simp
    show "y \<le> last ?ys" if "y \<in> set ?ys" for y
      using that by (intro sorted_le_last) simp_all
    show "last ?ys \<in> set ?ys"
      using ne by (rule last_in_set)
  qed
  then show ?thesis by simp
qed

lemma length_sort_remdups: "length (sort (remdups xs)) = card (set xs)"
  by (simp add: length_remdups_card_conv)

lemma second_sort_remdups:
  assumes "2 \<le> card (set xs)"
  shows "sort (remdups xs) ! 1 = Min (set xs - {Min (set xs)})"
proof -
  let ?A = "set xs"
  have neA: "?A \<noteq> {}"
    using assms by auto
  have "card (?A - {Min ?A}) = card ?A - 1"
    using neA by (simp add: card_Diff_singleton)
  with assms have "0 < card (?A - {Min ?A})"
    by simp
  then have neB: "?A - {Min ?A} \<noteq> {}"
    by (simp only: card_gt_0_iff) simp
  have "sort (remdups xs) = sorted_list_of_set ?A"
    by (simp add: sorted_list_of_set_sort_remdups)
  also have "\<dots> = Min ?A # sorted_list_of_set (?A - {Min ?A})"
    using neA by (simp add: sorted_list_of_set_nonempty)
  also have "sorted_list_of_set (?A - {Min ?A})
      = Min (?A - {Min ?A}) # sorted_list_of_set (?A - {Min ?A} - {Min (?A - {Min ?A})})"
    using neB by (intro sorted_list_of_set_nonempty) simp_all
  finally show ?thesis by simp
qed


lemma distinct_idxs2: "distinct (idxs2 a b)"
  unfolding idxs2_def
  by (intro distinct_concat_map) (auto simp: distinct_map inj_on_def)

lemma fold_rescale_step:
  "distinct xs \<Longrightarrow>
   shape2 (fold (rescale_step mn mx) xs rdm) = shape2 rdm \<and>
   (\<forall>i j. entry (fold (rescale_step mn mx) xs rdm) (i, j) =
      (if (i, j) \<in> set xs \<and> i \<noteq> j then (entry rdm (i, j) - mn) / (mx - mn)
       else entry rdm (i, j)))"
proof (induction xs arbitrary: rdm)
  case Nil
  then show ?case by simp
next
  case (Cons x xs)
  obtain a b where x: "x = (a, b)"
    by (cases x) auto
  from Cons.prems have d: "distinct xs" and nx: "(a, b) \<notin> set xs"
    by (simp_all add: x)
  show ?case
    using Cons.IH [OF d, of "rescale_step mn mx x rdm"] nx
    by (auto simp: x rescale_step_def)
qed

text \<open>
  C7. For a matrix that is 2 x 2 or not square, \<^verbatim>\<open>plot_rdm\<close>, with or without rescaling,
  and \<^verbatim>\<open>plot_rdm_withvalue\<close> return \<^verbatim>\<open>None\<close>, show no figure and leave the matrix as it
  was: the shape is checked before any rescaling.
\<close>

theorem invalid_shape_not_plotted:
  assumes "shape2 rdm = (2, 2) \<or> fst (shape2 rdm) \<noteq> snd (shape2 rdm)"
  shows "plot_rdm rdm rescale = Inr \<lparr>returned = PyNone, rdm_after = rdm, shown = None\<rparr> \<and>
         plot_rdm_withvalue rdm conditions_given
           = Inr \<lparr>returned = PyNone, rdm_after = rdm, shown = None\<rparr>"
  using assms
  by (cases "shape2 rdm") (auto simp: plot_rdm_def plot_rdm_withvalue_def Let_def)

theorem invalid_shape_not_plotted_witness:
  "shape2 rdm_2x2 = (2, 2) \<and>
   plot_rdm rdm_2x2 True = Inr \<lparr>returned = PyNone, rdm_after = rdm_2x2, shown = None\<rparr> \<and>
   plot_rdm_withvalue rdm_2x2 True = Inr \<lparr>returned = PyNone, rdm_after = rdm_2x2, shown = None\<rparr> \<and>
   shape2 rdm_3x2 = (3, 2) \<and>
   plot_rdm rdm_3x2 True = Inr \<lparr>returned = PyNone, rdm_after = rdm_3x2, shown = None\<rparr> \<and>
   plot_rdm_withvalue rdm_3x2 False = Inr \<lparr>returned = PyNone, rdm_after = rdm_3x2, shown = None\<rparr>"
proof -
  have s2: "shape2 rdm_2x2 = (2, 2)"
    by (simp add: rdm_2x2_def np_matrix_def)
  have s3: "shape2 rdm_3x2 = (3, 2)"
    by (simp add: rdm_3x2_def np_matrix_def)
  have h2: "shape2 rdm_2x2 = (2, 2) \<or> fst (shape2 rdm_2x2) \<noteq> snd (shape2 rdm_2x2)"
    using s2 by simp
  have h3: "shape2 rdm_3x2 = (2, 2) \<or> fst (shape2 rdm_3x2) \<noteq> snd (shape2 rdm_3x2)"
    using s3 by simp
  show ?thesis
    using invalid_shape_not_plotted [OF h2, of True True]
      invalid_shape_not_plotted [OF h3, of True False] s2 s3
    by simp
qed

text \<open>
  C8. For a square \<open>n \<times> n\<close> matrix with \<open>n \<ge> 3\<close> that has at least two distinct values
  (taken over all entries, the diagonal included), whose largest value \<open>max\<close> differs from
  its second-smallest distinct value \<open>min2\<close>, \<^verbatim>\<open>plot_rdm\<close> with \<^verbatim>\<open>rescale=True\<close> does not
  raise, replaces every off-diagonal entry \<open>v\<close> in place by \<open>(v - min2) / (max - min2)\<close>,
  leaves every diagonal entry unchanged, and shows the rescaled matrix.
\<close>

theorem rescale_off_diagonal:
  assumes s: "shape2 rdm = (n, n)"
    and n: "3 \<le> n"
    and two: "2 \<le> card (rdm_values rdm)"
    and diff: "Max (rdm_values rdm) \<noteq> Min (rdm_values rdm - {Min (rdm_values rdm)})"
  shows "\<exists>out. plot_rdm rdm True = Inr out \<and> returned out = PyNone \<and>
           shown out = Some (rdm_after out) \<and> shape2 (rdm_after out) = (n, n) \<and>
           (\<forall>i j. i < n \<and> j < n \<longrightarrow>
              entry (rdm_after out) (i, j) =
                (if i \<noteq> j
                 then (entry rdm (i, j) - Min (rdm_values rdm - {Min (rdm_values rdm)}))
                        / (Max (rdm_values rdm) - Min (rdm_values rdm - {Min (rdm_values rdm)}))
                 else entry rdm (i, j)))"
proof -
  let ?v = "flatten_rdm rdm n"
  let ?l = "sort (remdups ?v)"
  let ?mx = "Max (rdm_values rdm)"
  let ?mn = "Min (rdm_values rdm - {Min (rdm_values rdm)})"
  let ?r = "fold (rescale_step ?mn ?mx) (idxs2 n n) rdm"
  have vals: "rdm_values rdm = set ?v"
    by (simp add: rdm_values_def s)
  have len: "\<not> length ?l < 2"
    using two by (simp add: length_remdups_card_conv vals)
  have ne: "?v \<noteq> []"
    using two unfolding vals by auto
  have mx: "last ?l = ?mx"
    using ne by (simp add: last_sort_remdups vals)
  have mn: "?l ! 1 = ?mn"
    using two unfolding vals by (rule second_sort_remdups)
  have mn': "?l ! Suc 0 = ?mn"
    using mn by simp
  have "rescale_rdm rdm n = Inr ?r"
    using len diff by (simp add: rescale_rdm_def Let_def mx mn')
  then have p: "plot_rdm rdm True = Inr \<lparr>returned = PyNone, rdm_after = ?r, shown = Some ?r\<rparr>"
    using n by (simp add: plot_rdm_def s Let_def)
  note f = fold_rescale_step [OF distinct_idxs2, of ?mn ?mx n n rdm]
  have "shape2 ?r = (n, n)"
    using f by (simp add: s)
  moreover have "\<forall>i j. i < n \<and> j < n \<longrightarrow>
      entry ?r (i, j) = (if i \<noteq> j then (entry rdm (i, j) - ?mn) / (?mx - ?mn) else entry rdm (i, j))"
    using f by (simp add: set_idxs2)
  ultimately show ?thesis
    using p by simp
qed

lemma idxs2_3_3:
  "idxs2 3 3 = [(0, 0), (0, 1), (0, 2), (1, 0), (1, 1), (1, 2), (2, 0), (2, 1), (2, 2)]"
  by (simp add: idxs2_def upt_rec numeral_nat)

lemma flatten_rdm_3x3: "flatten_rdm rdm_3x3 3 = [0, 1, 3, 1, 0, 2, 3, 2, 0]"
  unfolding flatten_rdm_def idxs2_3_3 by (simp add: rdm_3x3_def np_matrix_def)

lemma rdm_values_3x3: "rdm_values rdm_3x3 = {0, 1, 2, 3}"
proof -
  have "fst (shape2 rdm_3x3) = 3"
    by (simp add: rdm_3x3_def np_matrix_def)
  then have "rdm_values rdm_3x3 = set (flatten_rdm rdm_3x3 3)"
    by (simp only: rdm_values_def)
  then show ?thesis
    unfolding flatten_rdm_3x3 by auto
qed

theorem rescale_off_diagonal_witness:
  "shape2 rdm_3x3 = (3, 3) \<and> rdm_values rdm_3x3 = {0, 1, 2, 3} \<and>
   (\<exists>out. plot_rdm rdm_3x3 True = Inr out \<and>
      entry (rdm_after out) (0, 1) = 0 \<and> entry (rdm_after out) (0, 2) = 1 \<and>
      entry (rdm_after out) (1, 2) = 1 / 2 \<and> entry (rdm_after out) (2, 1) = 1 / 2 \<and>
      entry (rdm_after out) (1, 1) = 0)"
proof -
  have s: "shape2 rdm_3x3 = (3, 3)"
    by (simp add: rdm_3x3_def np_matrix_def)
  have n: "(3::nat) \<le> 3"
    by simp
  have two: "2 \<le> card (rdm_values rdm_3x3)"
    by (simp add: rdm_values_3x3)
  have mx: "Max (rdm_values rdm_3x3) = 3"
    by (simp add: rdm_values_3x3)
  have "rdm_values rdm_3x3 - {Min (rdm_values rdm_3x3)} = {1, 2, 3}"
    by (auto simp: rdm_values_3x3)
  then have mn: "Min (rdm_values rdm_3x3 - {Min (rdm_values rdm_3x3)}) = 1"
    by simp
  have diff: "Max (rdm_values rdm_3x3) \<noteq> Min (rdm_values rdm_3x3 - {Min (rdm_values rdm_3x3)})"
    by (simp add: mx mn)
  from rescale_off_diagonal [OF s n two diff] obtain out where
    out: "plot_rdm rdm_3x3 True = Inr out"
      "\<forall>i j. i < 3 \<and> j < 3 \<longrightarrow>
         entry (rdm_after out) (i, j) =
           (if i \<noteq> j then (entry rdm_3x3 (i, j) - 1) / (3 - 1) else entry rdm_3x3 (i, j))"
    unfolding mx mn by blast
  have e: "entry rdm_3x3 (0, 1) = 1" "entry rdm_3x3 (0, 2) = 3" "entry rdm_3x3 (1, 2) = 2"
    "entry rdm_3x3 (2, 1) = 2" "entry rdm_3x3 (1, 1) = 0"
    by (simp_all add: rdm_3x3_def np_matrix_def)
  have "entry (rdm_after out) (0, 1) = 0"
    using out(2) [rule_format, of 0 1] e by simp
  moreover have "entry (rdm_after out) (0, 2) = 1"
    using out(2) [rule_format, of 0 2] e by simp
  moreover have "entry (rdm_after out) (1, 2) = 1 / 2"
    using out(2) [rule_format, of 1 2] e by simp
  moreover have "entry (rdm_after out) (2, 1) = 1 / 2"
    using out(2) [rule_format, of 2 1] e by simp
  moreover have "entry (rdm_after out) (1, 1) = 0"
    using out(2) [rule_format, of 1 1] e by simp
  ultimately show ?thesis
    using s rdm_values_3x3 out(1) by blast
qed

end
